theory Spec2Isabelle
  imports Complex_Main
begin

section \<open>The sliding-window rate limiter of rateLimiter.js\<close>

text \<open>
  The class \<^verbatim>\<open>RateLimiter\<close> keeps, per client key, the list of instants at which a
  request was admitted. Instants are the integers returned by \<^verbatim>\<open>Date.now()\<close>
  (milliseconds); the model takes that value as the explicit argument \<open>now\<close> of every
  operation that reads the clock. JavaScript numbers are modelled as \<open>int\<close>, the one
  division of the source (\<^verbatim>\<open>/ 1000\<close> under \<^verbatim>\<open>Math.ceil\<close>) is taken in the reals;
  for integers below \<open>2^53\<close> the floating-point quotient has the same ceiling.
  The \<^verbatim>\<open>Map\<close> of the source is a partial function from keys to lists, and every
  method takes the object and returns it updated.
\<close>

subsection \<open>Data\<close>

record rate_limiter =
  maxRequests :: int
  windowMs :: int
  requests :: "string \<rightharpoonup> int list"

record decision =
  allowed :: bool
  remaining :: int
  resetTime :: int
  retryAfter :: int

record stats =
  requestCount :: int
  remaining :: int
  resetTime :: int

text \<open>
  The only error class the documentation of the limiter speaks of. The constructor of
  the source has no \<^verbatim>\<open>throw\<close>, so no branch of the model returns it.
\<close>

datatype error = ConfigurationError

subsection \<open>Operations\<close>

text \<open>
  \<^verbatim>\<open>constructor(maxRequests = 10, windowMs = 60000)\<close>: an omitted argument
  (\<open>None\<close>) takes its default; the body is three assignments.
\<close>

definition RateLimiter :: "int option \<Rightarrow> int option \<Rightarrow> error + rate_limiter" where
  "RateLimiter maxRequests_arg windowMs_arg =
     Inr \<lparr>maxRequests = (case maxRequests_arg of None \<Rightarrow> 10 | Some m \<Rightarrow> m),
          windowMs = (case windowMs_arg of None \<Rightarrow> 60000 | Some w \<Rightarrow> w),
          requests = Map.empty\<rparr>"

definition Math_ceil :: "real \<Rightarrow> int" where
  "Math_ceil x = \<lceil>x\<rceil>"

text \<open>
  \<^verbatim>\<open>isAllowed(ip)\<close>, statement by statement. \<open>s1\<close> is the object after the
  initialisation of a missing key, \<open>s2\<close> after the filtered list is stored, \<open>s3\<close>
  after the push. The lookup after the initialisation always finds a list; the
  \<open>None\<close> branch of that lookup is never taken.
\<close>

definition isAllowed :: "int \<Rightarrow> string \<Rightarrow> rate_limiter \<Rightarrow> decision \<times> rate_limiter" where
  "isAllowed now ip s =
     (let windowStart = now - windowMs s;
          s1 = (if requests s ip = None then s\<lparr>requests := (requests s)(ip \<mapsto> [])\<rparr> else s);
          timestamps0 = (case requests s1 ip of None \<Rightarrow> [] | Some ts \<Rightarrow> ts);
          timestamps = filter (\<lambda>time. time > windowStart) timestamps0;
          s2 = s1\<lparr>requests := (requests s1)(ip \<mapsto> timestamps)\<rparr>;
          requestCount = int (length timestamps);
          allowed = (requestCount < maxRequests s);
          timestamps' = (if allowed then timestamps @ [now] else timestamps);
          s3 = (if allowed then s2\<lparr>requests := (requests s2)(ip \<mapsto> timestamps')\<rparr> else s2);
          finalCount = (if allowed then requestCount + 1 else requestCount);
          remaining = max 0 (maxRequests s - finalCount);
          resetTime = (if length timestamps' > 0 then timestamps' ! 0 + windowMs s
                       else now + windowMs s)
      in (\<lparr>allowed = allowed, remaining = remaining, resetTime = resetTime,
           retryAfter = (if allowed then 0
                         else Math_ceil (real_of_int (resetTime - now) / 1000))\<rparr>,
          s3))"

text \<open>\<^verbatim>\<open>reset(ip)\<close> is \<^verbatim>\<open>this.requests.delete(ip)\<close>.\<close>

definition reset :: "string \<Rightarrow> rate_limiter \<Rightarrow> rate_limiter" where
  "reset ip s = s\<lparr>requests := (requests s)(ip := None)\<rparr>"

text \<open>
  \<^verbatim>\<open>getStats(ip)\<close>. The source calls \<^verbatim>\<open>has\<close>, \<^verbatim>\<open>get\<close> and \<^verbatim>\<open>filter\<close> (which
  builds a new array) and never \<^verbatim>\<open>set\<close>, \<^verbatim>\<open>delete\<close> or \<^verbatim>\<open>push\<close>; the object
  returned beside the result is the one received.
\<close>

definition getStats :: "int \<Rightarrow> string \<Rightarrow> rate_limiter \<Rightarrow> stats \<times> rate_limiter" where
  "getStats now ip s =
     (let windowStart = now - windowMs s
      in case requests s ip of
           None \<Rightarrow>
             (\<lparr>requestCount = 0, remaining = maxRequests s, resetTime = now + windowMs s\<rparr>, s)
         | Some stored_ts \<Rightarrow>
             (let timestamps = filter (\<lambda>time. time > windowStart) stored_ts
              in (\<lparr>requestCount = int (length timestamps),
                   remaining = max 0 (maxRequests s - int (length timestamps)),
                   resetTime = (if length timestamps > 0 then timestamps ! 0 + windowMs s
                                else now + windowMs s)\<rparr>,
                  s)))"

subsection \<open>Sequences of calls\<close>

text \<open>
  A caller's history is a list of calls, each carrying the clock value it observed.
  \<open>step\<close> performs one call and keeps the object, \<open>run\<close> performs a list of calls
  from left to right.
\<close>

datatype call = Check int string | Reset string | Stats int string

fun step :: "call \<Rightarrow> rate_limiter \<Rightarrow> rate_limiter" where
  "step (Check now ip) s = snd (isAllowed now ip s)"
| "step (Reset ip) s = reset ip s"
| "step (Stats now ip) s = snd (getStats now ip s)"

fun run :: "call list \<Rightarrow> rate_limiter \<Rightarrow> rate_limiter" where
  "run [] s = s"
| "run (c # cs) s = run cs (step c s)"

text \<open>The list stored for a key, empty when the key has no entry.\<close>

definition stored :: "rate_limiter \<Rightarrow> string \<Rightarrow> int list" where
  "stored s ip = (case requests s ip of None \<Rightarrow> [] | Some ts \<Rightarrow> ts)"

text \<open>A limiter as the constructor leaves it: the two settings and an empty map.\<close>

definition fresh :: "int \<Rightarrow> int \<Rightarrow> rate_limiter" where
  "fresh m w = \<lparr>maxRequests = m, windowMs = w, requests = Map.empty\<rparr>"

text \<open>
  Consecutive checks of one key at the given instants, as a caller's loop over
  \<^verbatim>\<open>isAllowed\<close> performs them: the decisions in order, and the object at the end.
\<close>

fun checks :: "int list \<Rightarrow> string \<Rightarrow> rate_limiter \<Rightarrow> decision list \<times> rate_limiter" where
  "checks [] ip s = ([], s)"
| "checks (now # nows) ip s =
     (let (d, s') = isAllowed now ip s;
          (ds, s'') = checks nows ip s'
      in (d # ds, s''))"

text \<open>The clock values the checks of a history observed, in order.\<close>

fun check_times :: "call list \<Rightarrow> int list" where
  "check_times [] = []"
| "check_times (Check now ip # cs) = now # check_times cs"
| "check_times (Reset ip # cs) = check_times cs"
| "check_times (Stats now ip # cs) = check_times cs"

text \<open>
  The keys a history leaves in a set of keys: a check adds its key, a reset removes
  its key, statistics change nothing.
\<close>

fun keys_after :: "call list \<Rightarrow> string set \<Rightarrow> string set" where
  "keys_after [] K = K"
| "keys_after (Check now ip # cs) K = keys_after cs (insert ip K)"
| "keys_after (Reset ip # cs) K = keys_after cs (K - {ip})"
| "keys_after (Stats now ip # cs) K = keys_after cs K"

section \<open>Basic facts\<close>

lemma RateLimiter_fresh: "RateLimiter (Some m) (Some w) = Inr (fresh m w)"
  by (simp add: RateLimiter_def fresh_def)

lemma isAllowed_maxRequests [simp]: "maxRequests (snd (isAllowed now ip s)) = maxRequests s"
  by (simp add: isAllowed_def Let_def)

lemma isAllowed_windowMs [simp]: "windowMs (snd (isAllowed now ip s)) = windowMs s"
  by (simp add: isAllowed_def Let_def)

lemma isAllowed_stored_other:
  "k \<noteq> ip \<Longrightarrow> requests (snd (isAllowed now ip s)) k = requests s k"
  by (simp add: isAllowed_def Let_def)

lemma isAllowed_stored_same:
  "requests (snd (isAllowed now ip s)) ip =
     Some (filter (\<lambda>time. time > now - windowMs s) (stored s ip) @
           (if int (length (filter (\<lambda>time. time > now - windowMs s) (stored s ip))) < maxRequests s
            then [now] else []))"
  by (simp add: isAllowed_def Let_def stored_def split: option.splits)

lemma getStats_state [simp]: "snd (getStats now ip s) = s"
  by (simp add: getStats_def Let_def split: option.splits)

lemma reset_maxRequests [simp]: "maxRequests (reset ip s) = maxRequests s"
  by (simp add: reset_def)

lemma reset_windowMs [simp]: "windowMs (reset ip s) = windowMs s"
  by (simp add: reset_def)

lemma step_maxRequests [simp]: "maxRequests (step c s) = maxRequests s"
  by (cases c) simp_all

lemma step_windowMs [simp]: "windowMs (step c s) = windowMs s"
  by (cases c) simp_all

lemma run_maxRequests [simp]: "maxRequests (run cs s) = maxRequests s"
  by (induction cs arbitrary: s) simp_all

lemma run_windowMs [simp]: "windowMs (run cs s) = windowMs s"
  by (induction cs arbitrary: s) simp_all

lemma stored_isAllowed_other: "k \<noteq> ip \<Longrightarrow> stored (snd (isAllowed now ip s)) k = stored s k"
  by (simp add: stored_def isAllowed_stored_other)

lemma stored_isAllowed_same:
  "stored (snd (isAllowed now ip s)) ip =
     filter (\<lambda>time. time > now - windowMs s) (stored s ip) @
       (if int (length (filter (\<lambda>time. time > now - windowMs s) (stored s ip))) < maxRequests s
        then [now] else [])"
  by (simp add: stored_def [of "snd (isAllowed now ip s)"] isAllowed_stored_same)

lemma stored_reset: "stored (reset ip s) k = (if k = ip then [] else stored s k)"
  by (simp add: stored_def reset_def)

lemma stored_fresh [simp]: "stored (fresh m w) k = []"
  by (simp add: stored_def fresh_def)

lemma fresh_sel [simp]: "maxRequests (fresh m w) = m" "windowMs (fresh m w) = w"
  by (simp_all add: fresh_def)

lemma isAllowed_allowed:
  "allowed (fst (isAllowed now ip s)) =
     (int (length (filter (\<lambda>time. time > now - windowMs s) (stored s ip))) < maxRequests s)"
  by (simp add: isAllowed_def Let_def stored_def split: option.splits)

subsection \<open>No stored list is longer than the quota\<close>

lemma step_length_bound:
  assumes "0 \<le> maxRequests s" and "\<And>k. int (length (stored s k)) \<le> maxRequests s"
  shows "int (length (stored (step c s) k)) \<le> maxRequests s"
proof (cases c)
  case (Check now ip)
  show ?thesis
  proof (cases "k = ip")
    case True
    have "int (length (filter (\<lambda>time. time > now - windowMs s) (stored s ip)))
            \<le> int (length (stored s ip))"
      by simp
    also have "\<dots> \<le> maxRequests s" by (rule assms(2))
    finally show ?thesis using Check True by (simp add: stored_isAllowed_same)
  next
    case False
    then show ?thesis using Check assms(2) by (simp add: stored_isAllowed_other)
  qed
next
  case (Reset ip)
  then show ?thesis using assms by (simp add: stored_reset)
next
  case (Stats now ip)
  then show ?thesis using assms(2) by simp
qed

lemma run_length_bound:
  "0 \<le> maxRequests s \<Longrightarrow> (\<And>k. int (length (stored s k)) \<le> maxRequests s) \<Longrightarrow>
     int (length (stored (run cs s) k)) \<le> maxRequests s"
proof (induction cs arbitrary: s k)
  case Nil
  then show ?case by simp
next
  case (Cons c cs)
  have "int (length (stored (run cs (step c s)) k)) \<le> maxRequests (step c s)"
  proof (rule Cons.IH)
    show "0 \<le> maxRequests (step c s)" using Cons.prems(1) by simp
  next
    fix k' show "int (length (stored (step c s) k')) \<le> maxRequests (step c s)"
      using step_length_bound [OF Cons.prems(1) Cons.prems(2)] by simp
  qed
  then show ?case by simp
qed

subsection \<open>Checks of a key whose list leaves room\<close>

lemma checks_all_allowed:
  "int (length (stored s ip)) + int (length nows) \<le> maxRequests s \<Longrightarrow>
     list_all allowed (fst (checks nows ip s))"
proof (induction nows arbitrary: s)
  case Nil
  then show ?case by simp
next
  case (Cons now nows)
  let ?ts = "filter (\<lambda>time. time > now - windowMs s) (stored s ip)"
  let ?s' = "snd (isAllowed now ip s)"
  have flt: "length ?ts \<le> length (stored s ip)" by (rule length_filter_le)
  have len: "int (length (now # nows)) = 1 + int (length nows)" by simp
  from flt len Cons.prems have lt: "int (length ?ts) < maxRequests s" by linarith
  then have a: "allowed (fst (isAllowed now ip s))" by (simp add: isAllowed_allowed)
  have "stored ?s' ip = ?ts @ [now]" using lt by (simp add: stored_isAllowed_same)
  then have "int (length (stored ?s' ip)) = int (length ?ts) + 1" by simp
  with flt len Cons.prems
  have "int (length (stored ?s' ip)) + int (length nows) \<le> maxRequests s" by linarith
  then have "int (length (stored ?s' ip)) + int (length nows) \<le> maxRequests ?s'" by simp
  then have "list_all allowed (fst (checks nows ip ?s'))" by (rule Cons.IH)
  with a show ?case by (simp add: case_prod_beta)
qed

subsection \<open>Order of the stored instants\<close>

lemma sorted_wrt_filter_snoc:
  "sorted_wrt R xs \<Longrightarrow> (\<forall>x\<in>set xs. R x n) \<Longrightarrow>
     sorted_wrt R (filter P xs @ (if b then [n] else []))"
  by (auto simp: sorted_wrt_append intro: sorted_wrt_filter)

lemma step_sorted_wrt:
  assumes tr: "transp R"
      and srt: "\<forall>k. sorted_wrt R (stored s k)"
      and bnd: "\<forall>k. \<forall>x\<in>set (stored s k). \<forall>t\<in>set (check_times (c # cs)). R x t"
      and tms: "sorted_wrt R (check_times (c # cs))"
  shows "sorted_wrt R (stored (step c s) k) \<and>
         (\<forall>x\<in>set (stored (step c s) k). \<forall>t\<in>set (check_times cs). R x t)"
proof (cases c)
  case (Check now ip)
  show ?thesis
  proof (cases "k = ip")
    case True
    have before: "\<forall>x\<in>set (stored s ip). R x now"
      using bnd Check by simp
    have later: "\<forall>t\<in>set (check_times cs). R now t"
      using tms Check by simp
    have "sorted_wrt R (stored (step c s) k)"
      using Check True srt before
      by (simp add: stored_isAllowed_same sorted_wrt_filter_snoc)
    moreover have "R x t"
      if "x \<in> set (stored (step c s) k)" and "t \<in> set (check_times cs)" for x t
    proof -
      have nt: "R now t" using later that(2) by blast
      from that(1) have "x = now \<or> R x now"
        using Check True before by (auto simp: stored_isAllowed_same split: if_splits)
      then show ?thesis using nt tr by (auto dest: transpD)
    qed
    ultimately show ?thesis by blast
  next
    case False
    then show ?thesis using Check srt bnd
      by (simp add: stored_isAllowed_other)
  qed
next
  case (Reset ip)
  then show ?thesis using srt bnd by (simp add: stored_reset)
next
  case (Stats now ip)
  then show ?thesis using srt bnd by simp
qed

lemma run_sorted_wrt:
  "transp R \<Longrightarrow> sorted_wrt R (check_times cs) \<Longrightarrow> \<forall>k. sorted_wrt R (stored s k) \<Longrightarrow>
   \<forall>k. \<forall>x\<in>set (stored s k). \<forall>t\<in>set (check_times cs). R x t \<Longrightarrow>
     sorted_wrt R (stored (run cs s) k)"
proof (induction cs arbitrary: s)
  case Nil
  then show ?case by simp
next
  case (Cons c cs)
  have st: "sorted_wrt R (stored (step c s) k) \<and>
         (\<forall>x\<in>set (stored (step c s) k). \<forall>t\<in>set (check_times cs). R x t)" for k
    using Cons.prems(1) Cons.prems(3) Cons.prems(4) Cons.prems(2) by (rule step_sorted_wrt)
  have tl: "sorted_wrt R (check_times cs)"
    using Cons.prems(2) by (cases c) simp_all
  have "sorted_wrt R (stored (run cs (step c s)) k)"
  proof (rule Cons.IH [OF Cons.prems(1) tl])
    show "\<forall>k. sorted_wrt R (stored (step c s) k)" using st by blast
    show "\<forall>k. \<forall>x\<in>set (stored (step c s) k). \<forall>t\<in>set (check_times cs). R x t"
      using st by blast
  qed
  then show ?case by simp
qed

subsection \<open>The keys of the map\<close>

lemma dom_isAllowed: "dom (requests (snd (isAllowed now ip s))) = insert ip (dom (requests s))"
  by (auto simp: isAllowed_def Let_def split: if_splits)

lemma dom_reset: "dom (requests (reset ip s)) = dom (requests s) - {ip}"
  by (auto simp: reset_def)

lemma dom_run_checks:
  "dom (requests (run (map (Check t) ks) s)) = dom (requests s) \<union> set ks"
  by (induction ks arbitrary: s) (auto simp: dom_isAllowed)

lemma requests_fresh [simp]: "requests (fresh m w) = Map.empty"
  by (simp add: fresh_def)

section \<open>Claims\<close>

text \<open>
  C10. Statistics of a key that has no entry in the map: the request count is 0, the
  remaining quota is \<open>maxRequests\<close>, the reset time is \<open>now + windowMs\<close>, and the
  object is returned as it was, so no entry is created for the key.
\<close>

theorem getStats_unknown_key:
  "requests s ip = None \<Longrightarrow>
     getStats now ip s =
       (\<lparr>requestCount = 0, remaining = maxRequests s, resetTime = now + windowMs s\<rparr>, s)"
  by (simp add: getStats_def)

theorem getStats_unknown_key_witness:
  "requests (fresh 30 60000) ''10.0.0.1'' = None \<and>
   getStats 1700000000000 ''10.0.0.1'' (fresh 30 60000) =
     (\<lparr>requestCount = 0, remaining = 30, resetTime = 1700000060000\<rparr>, fresh 30 60000)"
  using getStats_unknown_key [of "fresh 30 60000" "''10.0.0.1''" 1700000000000]
  by (simp add: fresh_def)

text \<open>
  C7. \<^verbatim>\<open>getStats\<close> is read-only: one call returns the object it received, any list
  of statistics calls (any keys, any instants) leaves the object as it was, and a check
  made afterwards, for any key at any instant, returns the decision and the object it
  would have returned without them.
\<close>

theorem getStats_read_only:
  "snd (getStats now ip s) = s \<and>
   run (map (\<lambda>(t, k). Stats t k) qs) s = s \<and>
   isAllowed now' ip' (run (map (\<lambda>(t, k). Stats t k) qs) s) = isAllowed now' ip' s"
proof -
  have "run (map (\<lambda>(t, k). Stats t k) qs) s = s"
    by (induction qs) (simp_all add: case_prod_beta)
  then show ?thesis by simp
qed

text \<open>
  C2. The decision of a check. With \<open>ts\<close> the stored instants that are not
  \<open>\<le> now - windowMs\<close> and \<open>count\<close> their number: when \<open>count < maxRequests\<close> the
  key's list becomes \<open>ts\<close> followed by \<open>now\<close>, the request is allowed, the remaining
  quota is \<open>maxRequests - (count + 1)\<close> and the retry delay is 0; otherwise the key's
  list becomes \<open>ts\<close>, the request is refused, the remaining quota is 0 and the retry
  delay is the ceiling of \<open>(resetTime - now) / 1000\<close>. In both cases the reset time is
  the first instant of the updated list plus \<open>windowMs\<close>, or \<open>now + windowMs\<close> when
  that list is empty.
\<close>

theorem isAllowed_decision:
  "let ts = filter (\<lambda>t. \<not> t \<le> now - windowMs s) (stored s ip);
       count = int (length ts);
       d = fst (isAllowed now ip s);
       s' = snd (isAllowed now ip s)
   in (if count < maxRequests s
       then stored s' ip = ts @ [now] \<and> allowed d \<and>
            decision.remaining d = maxRequests s - (count + 1) \<and> retryAfter d = 0
       else stored s' ip = ts \<and> \<not> allowed d \<and> decision.remaining d = 0 \<and>
            retryAfter d = \<lceil>real_of_int (decision.resetTime d - now) / 1000\<rceil>) \<and>
      decision.resetTime d =
        (if stored s' ip \<noteq> [] then hd (stored s' ip) + windowMs s else now + windowMs s)"
  apply (simp add: isAllowed_def Let_def stored_def Math_ceil_def not_le split: option.splits)
  apply (auto simp: hd_conv_nth hd_append nth_append)
  done

text \<open>
  The scenario of quota 2 and window 5000: after admitted calls at 0 and 1000 the call
  at 2000 is refused with reset time 5000 and retry delay 3; the second of the admitted
  calls had remaining quota 0.
\<close>

theorem isAllowed_decision_witness:
  "fst (isAllowed 2000 ''K'' (run [Check 0 ''K'', Check 1000 ''K''] (fresh 2 5000))) =
     \<lparr>allowed = False, remaining = 0, resetTime = 5000, retryAfter = 3\<rparr> \<and>
   fst (isAllowed 1000 ''K'' (run [Check 0 ''K''] (fresh 2 5000))) =
     \<lparr>allowed = True, remaining = 0, resetTime = 5000, retryAfter = 0\<rparr>"
  using isAllowed_decision [of 2000 "run [Check 0 ''K'', Check 1000 ''K''] (fresh 2 5000)" "''K''"]
        isAllowed_decision [of 1000 "run [Check 0 ''K''] (fresh 2 5000)" "''K''"]
  by (simp add: isAllowed_def Let_def stored_def Math_ceil_def fresh_def)

text \<open>
  C3, as the code has it. The claim that a quota or a window \<open>\<le> 0\<close> makes the
  construction fail does not hold: the constructor checks nothing. With quota 0 and
  window -5 it returns a limiter holding exactly these values.
\<close>

theorem RateLimiter_invalid_counterexample:
  "RateLimiter (Some 0) (Some (- 5)) \<noteq> Inl ConfigurationError \<and>
   RateLimiter (Some 0) (Some (- 5)) =
     Inr \<lparr>maxRequests = 0, windowMs = - 5, requests = Map.empty\<rparr>"
  by (simp add: RateLimiter_def)

text \<open>
  C3, amended. Construction never fails, whatever the arguments: the limiter returned
  holds the quota and the window it was given, unchanged (also when they are \<open>\<le> 0\<close>),
  the defaults 10 and 60000 for an omitted argument, and an empty map.
\<close>

theorem RateLimiter_accepts_any:
  "RateLimiter m_arg w_arg \<noteq> Inl e \<and>
   RateLimiter (Some m) (Some w) = Inr \<lparr>maxRequests = m, windowMs = w, requests = Map.empty\<rparr> \<and>
   RateLimiter None None = Inr \<lparr>maxRequests = 10, windowMs = 60000, requests = Map.empty\<rparr>"
  by (simp add: RateLimiter_def)

text \<open>
  C5, as the code has it. The claim that a reset keeps the key's entry (with an empty
  list) does not hold: after one admitted call the key has the entry \<open>[0]\<close>, and after
  the reset the key has no entry at all.
\<close>

theorem reset_keeps_entry_counterexample:
  "requests (run [Check 0 ''K''] (fresh 2 10000)) ''K'' = Some [0] \<and>
   requests (reset ''K'' (run [Check 0 ''K''] (fresh 2 10000))) ''K'' \<noteq> Some [] \<and>
   requests (reset ''K'' (run [Check 0 ''K''] (fresh 2 10000))) ''K'' = None"
  by (simp add: reset_def isAllowed_def Let_def fresh_def)

text \<open>
  C5, amended. A reset removes the key's entry from the map, whatever it held: the
  key is then a key without an entry, and its statistics are those of such a key (count
  0, full quota). The entry of every other key, the quota and the window are unchanged.
\<close>

theorem reset_deletes_entry:
  "requests (reset ip s) ip = None \<and>
   (\<forall>k. k \<noteq> ip \<longrightarrow> requests (reset ip s) k = requests s k) \<and>
   maxRequests (reset ip s) = maxRequests s \<and> windowMs (reset ip s) = windowMs s \<and>
   fst (getStats now ip (reset ip s)) =
     \<lparr>requestCount = 0, remaining = maxRequests s, resetTime = now + windowMs s\<rparr>"
  by (simp add: reset_def getStats_def)

theorem reset_deletes_entry_witness:
  "requests (reset ''K'' (run [Check 0 ''K'', Check 1 ''J''] (fresh 2 10000))) ''K'' = None \<and>
   requests (reset ''K'' (run [Check 0 ''K'', Check 1 ''J''] (fresh 2 10000))) ''J'' = Some [1] \<and>
   requests (run [Check 0 ''K'', Check 1 ''J''] (fresh 2 10000)) ''J'' = Some [1]"
  using reset_deletes_entry [of "''K''" "run [Check 0 ''K'', Check 1 ''J''] (fresh 2 10000)" 0]
  by (simp add: isAllowed_def Let_def fresh_def)

text \<open>
  C8. The window is half-open. The list a check stores for the key is the stored
  instants strictly greater than \<open>now - windowMs\<close>, followed by \<open>now\<close> when the
  request is allowed; the count the statistics report and the count the check tests
  against the quota are the number of those instants. An instant equal to
  \<open>now - windowMs\<close> is not among them: keeping the instants \<open>\<ge> now - windowMs\<close>
  other than \<open>now - windowMs\<close> itself gives the same list.
\<close>

theorem half_open_window:
  "stored (snd (isAllowed now ip s)) ip =
     filter (\<lambda>t. now - windowMs s < t) (stored s ip) @
     (if allowed (fst (isAllowed now ip s)) then [now] else []) \<and>
   allowed (fst (isAllowed now ip s)) =
     (int (length (filter (\<lambda>t. now - windowMs s < t) (stored s ip))) < maxRequests s) \<and>
   requestCount (fst (getStats now ip s)) =
     int (length (filter (\<lambda>t. now - windowMs s < t) (stored s ip))) \<and>
   filter (\<lambda>t. now - windowMs s < t) (stored s ip) =
     filter (\<lambda>t. t \<noteq> now - windowMs s \<and> now - windowMs s \<le> t) (stored s ip)"
proof -
  have "(\<lambda>t. now - windowMs s < t) = (\<lambda>t. t \<noteq> now - windowMs s \<and> now - windowMs s \<le> t)"
    by auto
  then have "filter (\<lambda>t. now - windowMs s < t) (stored s ip) =
     filter (\<lambda>t. t \<noteq> now - windowMs s \<and> now - windowMs s \<le> t) (stored s ip)"
    by simp
  moreover have "stored (snd (isAllowed now ip s)) ip =
     filter (\<lambda>t. now - windowMs s < t) (stored s ip) @
     (if allowed (fst (isAllowed now ip s)) then [now] else [])"
    by (simp add: isAllowed_def Let_def stored_def split: option.splits)
  moreover have "allowed (fst (isAllowed now ip s)) =
     (int (length (filter (\<lambda>t. now - windowMs s < t) (stored s ip))) < maxRequests s)"
    by (simp add: isAllowed_def Let_def stored_def split: option.splits)
  moreover have "requestCount (fst (getStats now ip s)) =
     int (length (filter (\<lambda>t. now - windowMs s < t) (stored s ip)))"
    by (simp add: getStats_def Let_def stored_def split: option.splits)
  ultimately show ?thesis by blast
qed

text \<open>
  The boundary itself, quota 1 and window 1000 with the instant 0 stored: at 1000 the
  stored instant equals the start of the window, the statistics count 0 and the check
  is allowed; at 999 the statistics count 1 and the check is refused.
\<close>

theorem half_open_window_witness:
  "requestCount (fst (getStats 1000 ''K'' (run [Check 0 ''K''] (fresh 1 1000)))) = 0 \<and>
   allowed (fst (isAllowed 1000 ''K'' (run [Check 0 ''K''] (fresh 1 1000)))) \<and>
   stored (snd (isAllowed 1000 ''K'' (run [Check 0 ''K''] (fresh 1 1000)))) ''K'' = [1000] \<and>
   requestCount (fst (getStats 999 ''K'' (run [Check 0 ''K''] (fresh 1 1000)))) = 1 \<and>
   \<not> allowed (fst (isAllowed 999 ''K'' (run [Check 0 ''K''] (fresh 1 1000)))) \<and>
   stored (snd (isAllowed 999 ''K'' (run [Check 0 ''K''] (fresh 1 1000)))) ''K'' = [0]"
  using half_open_window [of 1000 "''K''" "run [Check 0 ''K''] (fresh 1 1000)"]
        half_open_window [of 999 "''K''" "run [Check 0 ''K''] (fresh 1 1000)"]
  by (simp add: isAllowed_def getStats_def Let_def stored_def fresh_def)

text \<open>
  C1. The quota bound. For a positive quota \<open>m\<close> and a positive window \<open>w\<close>, after
  any list of check, reset and statistics calls on a newly constructed limiter, for any
  key \<open>k\<close> and any instant \<open>t\<close>, the number of instants stored for \<open>k\<close> that are
  strictly greater than \<open>t - w\<close> is at most \<open>m\<close>.
\<close>

theorem quota_bound:
  assumes "0 < m" and "0 < w"
  shows "int (length (filter (\<lambda>x. t - w < x) (stored (run cs (fresh m w)) k))) \<le> m"
proof -
  have "int (length (stored (run cs (fresh m w)) k)) \<le> maxRequests (fresh m w)"
    by (rule run_length_bound) (use assms in simp_all)
  then have total: "int (length (stored (run cs (fresh m w)) k)) \<le> m"
    by simp
  have "length (filter (\<lambda>x. t - w < x) (stored (run cs (fresh m w)) k))
          \<le> length (stored (run cs (fresh m w)) k)"
    by (rule length_filter_le)
  with total show ?thesis by linarith
qed

theorem quota_bound_witness:
  "(0::int) < 2 \<and> (0::int) < 5000 \<and>
   stored (run [Check 0 ''K'', Check 1000 ''K'', Check 2000 ''K'', Stats 2500 ''K'', Check 3000 ''K'']
                 (fresh 2 5000)) ''K'' = [0, 1000] \<and>
   int (length (filter (\<lambda>x. 3000 - 5000 < x)
     (stored (run [Check 0 ''K'', Check 1000 ''K'', Check 2000 ''K'', Stats 2500 ''K'', Check 3000 ''K'']
                 (fresh 2 5000)) ''K''))) \<le> 2"
  using quota_bound [of 2 5000 3000
     "[Check 0 ''K'', Check 1000 ''K'', Check 2000 ''K'', Stats 2500 ''K'', Check 3000 ''K'']" "''K''"]
  by (simp add: stored_isAllowed_same)

text \<open>
  C6. A reset restores the full quota. Whatever the limiter held, the checks of the
  key that follow its reset are all allowed, as long as there are at most
  \<open>maxRequests\<close> of them; this holds at any instants, within one window or not.
\<close>

theorem reset_restores_quota:
  assumes "int (length nows) \<le> maxRequests s"
  shows "list_all allowed (fst (checks nows ip (reset ip s)))"
proof (rule checks_all_allowed)
  show "int (length (stored (reset ip s) ip)) + int (length nows) \<le> maxRequests (reset ip s)"
    using assms by (simp add: stored_reset)
qed

text \<open>
  Quota 2, window 10000, three calls made (the third one refused): without the reset a
  call at 3000 is refused, after the reset the calls at 3000 and 3001 are both allowed.
\<close>

theorem reset_restores_quota_witness:
  "int (length [3000, 3001 :: int])
     \<le> maxRequests (run [Check 0 ''K'', Check 1 ''K'', Check 2 ''K''] (fresh 2 10000)) \<and>
   \<not> allowed (fst (isAllowed 3000 ''K''
         (run [Check 0 ''K'', Check 1 ''K'', Check 2 ''K''] (fresh 2 10000)))) \<and>
   map allowed (fst (checks [3000, 3001] ''K''
      (reset ''K'' (run [Check 0 ''K'', Check 1 ''K'', Check 2 ''K''] (fresh 2 10000))))) =
     [True, True]"
  using reset_restores_quota
    [of "[3000, 3001]" "run [Check 0 ''K'', Check 1 ''K'', Check 2 ''K''] (fresh 2 10000)" "''K''"]
  by (simp add: isAllowed_allowed stored_isAllowed_same stored_reset case_prod_beta)

text \<open>
  C9, as the code has it. The claim that the stored instants are always strictly
  increasing, also when checks observe the same instant, does not hold: two checks of
  one key at the instant 5, with quota 2, store \<open>[5, 5]\<close>.
\<close>

theorem strictly_increasing_counterexample:
  "stored (run [Check 5 ''K'', Check 5 ''K''] (fresh 2 1000)) ''K'' = [5, 5] \<and>
   \<not> sorted_wrt (<) (stored (run [Check 5 ''K'', Check 5 ''K''] (fresh 2 1000)) ''K'')"
  by (simp add: stored_isAllowed_same)

text \<open>
  C9, amended. After any list of calls on a newly constructed limiter whose checks
  observe non-decreasing instants, the list stored for every key is sorted in
  non-decreasing order (checks at one instant store equal neighbours); when the checks
  observe strictly increasing instants, the stored list is strictly increasing.
\<close>

theorem timestamps_sorted:
  "(sorted (check_times cs) \<longrightarrow> sorted (stored (run cs (fresh m w)) k)) \<and>
   (sorted_wrt (<) (check_times cs) \<longrightarrow> sorted_wrt (<) (stored (run cs (fresh m w)) k))"
proof (intro conjI impI)
  assume "sorted (check_times cs)"
  with transp_on_le show "sorted (stored (run cs (fresh m w)) k)"
    by (rule run_sorted_wrt) simp_all
next
  assume "sorted_wrt (<) (check_times cs)"
  with transp_on_less show "sorted_wrt (<) (stored (run cs (fresh m w)) k)"
    by (rule run_sorted_wrt) simp_all
qed

theorem timestamps_sorted_witness:
  "sorted (check_times [Check 5 ''K'', Stats 9 ''K'', Check 5 ''K'', Check 7 ''K'']) \<and>
   stored (run [Check 5 ''K'', Stats 9 ''K'', Check 5 ''K'', Check 7 ''K''] (fresh 3 1000)) ''K'' = [5, 5, 7] \<and>
   sorted (stored (run [Check 5 ''K'', Stats 9 ''K'', Check 5 ''K'', Check 7 ''K''] (fresh 3 1000)) ''K'') \<and>
   sorted_wrt (<) (check_times [Check 5 ''K'', Reset ''J'', Check 6 ''K'']) \<and>
   stored (run [Check 5 ''K'', Reset ''J'', Check 6 ''K''] (fresh 3 1000)) ''K'' = [5, 6] \<and>
   sorted_wrt (<) (stored (run [Check 5 ''K'', Reset ''J'', Check 6 ''K''] (fresh 3 1000)) ''K'')"
  using timestamps_sorted [of "[Check 5 ''K'', Stats 9 ''K'', Check 5 ''K'', Check 7 ''K'']" 3 1000 "''K''"]
        timestamps_sorted [of "[Check 5 ''K'', Reset ''J'', Check 6 ''K'']" 3 1000 "''K''"]
  by (simp add: stored_isAllowed_same stored_reset)

text \<open>
  C4, as the code has it. The claim that idle entries are removed, so that the number
  of entries stays bounded, does not hold. With quota 1 and window 1000, the entries
  made at the instants 0 and 1 are still in the map after a check of another key at the
  instant 1000000000, when the statistics of the first key count no request in its
  window; and no bound holds for the number of entries over all lists of calls.
\<close>

theorem bounded_store_counterexample:
  "requests (run [Check 0 ''a'', Check 1 ''b'', Check 1000000000 ''c''] (fresh 1 1000)) ''a'' = Some [0] \<and>
   requests (run [Check 0 ''a'', Check 1 ''b'', Check 1000000000 ''c''] (fresh 1 1000)) ''b'' = Some [1] \<and>
   requestCount (fst (getStats 1000000000 ''a''
     (run [Check 0 ''a'', Check 1 ''b'', Check 1000000000 ''c''] (fresh 1 1000)))) = 0 \<and>
   \<not> (\<exists>B. \<forall>cs. card (dom (requests (run cs (fresh 1 1000)))) \<le> B)"
proof -
  have "\<not> (\<exists>B. \<forall>cs. card (dom (requests (run cs (fresh 1 1000)))) \<le> B)"
  proof
    assume "\<exists>B. \<forall>cs. card (dom (requests (run cs (fresh 1 1000)))) \<le> B"
    then obtain B where b: "\<forall>cs. card (dom (requests (run cs (fresh 1 1000)))) \<le> B" ..
    define ks where "ks = map (\<lambda>n. replicate n CHR ''a'') [0..<Suc B]"
    have "inj_on (\<lambda>n. replicate n CHR ''a'') (set [0..<Suc B])"
      by (rule inj_onI) (metis length_replicate)
    then have "distinct ks"
      unfolding ks_def by (simp only: distinct_map distinct_upt simp_thms)
    then have "card (set ks) = length ks" by (rule distinct_card)
    also have "\<dots> = Suc B" unfolding ks_def by (simp only: length_map length_upt diff_zero)
    finally have "card (dom (requests (run (map (Check 0) ks) (fresh 1 1000)))) = Suc B"
      by (simp add: dom_run_checks)
    with b show False by (metis Suc_n_not_le_n)
  qed
  then show ?thesis
    by (simp add: isAllowed_def getStats_def Let_def fresh_def)
qed

text \<open>
  C4, amended. Nothing is evicted: the keys that have an entry after a list of calls
  are the keys that had one before, plus the keys checked, minus the keys reset, taken
  in the order of the calls (a check adds its key, a reset removes its key, statistics
  change nothing). Checks of \<open>n\<close> distinct keys on a new limiter leave \<open>n\<close>
  entries.
\<close>

theorem store_never_evicts:
  "dom (requests (run cs s)) = keys_after cs (dom (requests s)) \<and>
   (distinct ks \<longrightarrow> card (dom (requests (run (map (Check t) ks) (fresh m w)))) = length ks)"
proof
  show "dom (requests (run cs s)) = keys_after cs (dom (requests s))"
  proof (induction cs arbitrary: s)
    case Nil
    show ?case by simp
  next
    case (Cons c cs)
    then show ?case by (cases c) (simp_all add: dom_isAllowed dom_reset)
  qed
  show "distinct ks \<longrightarrow> card (dom (requests (run (map (Check t) ks) (fresh m w)))) = length ks"
    by (simp add: dom_run_checks distinct_card)
qed

theorem store_never_evicts_witness:
  "distinct [''a'', ''b'', ''c''] \<and>
   card (dom (requests (run (map (Check 0) [''a'', ''b'', ''c'']) (fresh 1 1000)))) = 3 \<and>
   dom (requests (run [Check 0 ''a'', Check 1 ''b'', Reset ''a'', Stats 5 ''c''] (fresh 1 1000))) = {''b''}"
  using store_never_evicts [of "[Check 0 ''a'', Check 1 ''b'', Reset ''a'', Stats 5 ''c'']" "fresh 1 1000"
                              "[''a'', ''b'', ''c'']" 0 1 1000]
  by auto

end
